theory Spec2Isabelle
  imports
    Main
    "HOL-Library.Char_ord"
    "HOL-Library.List_Lexorder"
    "HOL-Library.Multiset"
begin

section \<open>RISP v2: the research index and statistics program\<close>

text \<open>
  A shallow embedding of \<^verbatim>\<open>RISPv2.py\<close>. Python's unbounded integers are \<^typ>\<open>int\<close>.
  A Python \<^verbatim>\<open>str\<close> is a \<^typ>\<open>string\<close>; a \<^typ>\<open>char\<close> stands for the code point of the same
  number, so the model covers the strings over the code points below 256. The order on
  \<^typ>\<open>string\<close> is the lexicographic order on code points, which is how Python compares
  strings.
\<close>

subsection \<open>Dictionaries\<close>

text \<open>
  A Python \<^verbatim>\<open>dict\<close> keeps its keys in insertion order, and that order is what
  \<^verbatim>\<open>.items()\<close> and \<^verbatim>\<open>.values()\<close> iterate over. A dictionary is therefore an association
  list; the dictionaries the program builds have pairwise different keys.
\<close>

type_synonym ('k, 'v) dict = "('k \<times> 'v) list"

type_synonym papers = "(string, int) dict"

definition keys :: "('k, 'v) dict \<Rightarrow> 'k list" where
  "keys d = map fst d"

definition values_of :: "('k, 'v) dict \<Rightarrow> 'v list" where
  "values_of d = map snd d"

definition dict_get :: "('k, 'v) dict \<Rightarrow> 'k \<Rightarrow> 'v option" where
  "dict_get d k = map_of d k"

text \<open>\<^verbatim>\<open>d[k] = v\<close>: an existing key keeps its position, a new key goes to the end.\<close>

fun dict_set :: "'k \<Rightarrow> 'v \<Rightarrow> ('k, 'v) dict \<Rightarrow> ('k, 'v) dict" where
  "dict_set k v [] = [(k, v)]"
| "dict_set k v (p # ps) = (if fst p = k then (k, v) # ps else p # dict_set k v ps)"


text \<open>\<^verbatim>\<open>dict(pairs)\<close>: the pairs are inserted one after the other.\<close>

definition dict_of :: "('k \<times> 'v) list \<Rightarrow> ('k, 'v) dict" where
  "dict_of kvs = foldl (\<lambda>d (k, v). dict_set k v d) [] kvs"

subsection \<open>Sorting\<close>

text \<open>
  \<^verbatim>\<open>sorted(xs, key=f)\<close> is a stable sort. With \<^verbatim>\<open>reverse=True\<close> the interpreter reverses
  the list, sorts it stably and reverses the result, so that elements with equal keys
  keep their original order in the descending result as well.
\<close>

definition py_sorted :: "('a \<Rightarrow> 'k::linorder) \<Rightarrow> 'a list \<Rightarrow> 'a list" where
  "py_sorted key xs = sort_key key xs"

definition py_sorted_reverse :: "('a \<Rightarrow> 'k::linorder) \<Rightarrow> 'a list \<Rightarrow> 'a list" where
  "py_sorted_reverse key xs = rev (sort_key key (rev xs))"

subsection \<open>Core statistics\<close>

text \<open>
  \<^verbatim>\<open>h_index\<close>: the citation counts are sorted in descending order and the loop over
  \<^verbatim>\<open>enumerate(citations, start=1)\<close> keeps the last rank \<open>i\<close> whose count is at least \<open>i\<close>.
\<close>

definition h_index :: "('k, int) dict \<Rightarrow> int" where
  "h_index papers =
     (let citations = py_sorted_reverse (\<lambda>c. c) (values_of papers)
      in foldl (\<lambda>h (i, c). if c \<ge> int i then int i else h) 0 (List.enumerate 1 citations))"

text \<open>The number of papers of a collection with at least \<open>t\<close> citations.\<close>

definition papers_with_at_least :: "('k, int) dict \<Rightarrow> int \<Rightarrow> nat" where
  "papers_with_at_least papers t = length (filter (\<lambda>(name, c). t \<le> c) papers)"

text \<open>\<^verbatim>\<open>i10_index\<close>: \<^verbatim>\<open>sum(1 for c in papers.values() if c >= 10)\<close>.\<close>

definition i10_index :: "('k, int) dict \<Rightarrow> int" where
  "i10_index papers = sum_list (map (\<lambda>c. 1) (filter (\<lambda>c. c \<ge> 10) (values_of papers)))"

text \<open>
  \<^verbatim>\<open>count_above_thresholds\<close>: the dictionary comprehension inserts one entry per threshold,
  in the order of the sequence.
\<close>

definition count_above_thresholds :: "('k, int) dict \<Rightarrow> int list \<Rightarrow> (int, int) dict" where
  "count_above_thresholds papers thresholds =
     foldl (\<lambda>d t. dict_set t (sum_list (map (\<lambda>c. 1) (filter (\<lambda>c. c \<ge> t) (values_of papers)))) d)
       [] thresholds"

subsection \<open>Sorted views\<close>

text \<open>
  \<^verbatim>\<open>get_sorted_papers\<close> either builds a new dictionary or hands back the very object it
  was given, so it is modelled over a store of dictionaries: a reference is an index into
  the store, and a new object is put at the end. A reference held by the program always
  points into the store.
\<close>

type_synonym ref = nat

type_synonym store = "papers list"

definition alloc :: "store \<Rightarrow> papers \<Rightarrow> store \<times> ref" where
  "alloc s d = (s @ [d], length s)"

text \<open>The two dictionaries \<^verbatim>\<open>get_sorted_papers\<close> can build.\<close>

definition sorted_by_citations :: "papers \<Rightarrow> papers" where
  "sorted_by_citations papers = dict_of (py_sorted_reverse (\<lambda>x. snd x) papers)"

definition sorted_by_name :: "papers \<Rightarrow> papers" where
  "sorted_by_name papers = dict_of (py_sorted (\<lambda>x. fst x) papers)"

definition get_sorted_papers :: "store \<Rightarrow> ref \<Rightarrow> string \<Rightarrow> store \<times> ref" where
  "get_sorted_papers s papers mode =
     (if mode = ''citations'' then alloc s (sorted_by_citations (s ! papers))
      else if mode = ''name'' then alloc s (sorted_by_name (s ! papers))
      else (s, papers))"

text \<open>
  What a stable sort by \<open>key\<close> is, with \<open>le\<close> the order the keys are put in: the result has
  the same elements, its keys are in order, and the elements of each key come in the
  order they had.
\<close>

definition stable_sort_of :: "('a \<Rightarrow> 'k) \<Rightarrow> ('k \<Rightarrow> 'k \<Rightarrow> bool) \<Rightarrow> 'a list \<Rightarrow> 'a list \<Rightarrow> bool" where
  "stable_sort_of key le xs ys \<longleftrightarrow>
     mset ys = mset xs \<and> sorted_wrt (\<lambda>a b. le (key a) (key b)) ys \<and>
     (\<forall>k. filter (\<lambda>x. key x = k) ys = filter (\<lambda>x. key x = k) xs)"

subsection \<open>Strings\<close>







text \<open>\<^verbatim>\<open>str(n)\<close> and the text an f-string puts for an integer.\<close>

fun str_nat :: "nat \<Rightarrow> string" where
  "str_nat n =
     (if n < 10 then [''0123456789'' ! n]
      else str_nat (n div 10) @ [''0123456789'' ! (n mod 10)])"

declare str_nat.simps [simp del]

definition str_int :: "int \<Rightarrow> string" where
  "str_int i = (if i < 0 then CHR ''-'' # str_nat (nat (- i)) else str_nat (nat i))"




fun join :: "string \<Rightarrow> string list \<Rightarrow> string" where
  "join sep [] = []"
| "join sep [x] = x"
| "join sep (x # y # ys) = x @ sep @ join sep (y # ys)"

text \<open>The format specifications \<^verbatim>\<open><w\<close> and \<^verbatim>\<open>>w\<close>, and \<^verbatim>\<open>str.center\<close>.\<close>

definition ljust :: "nat \<Rightarrow> string \<Rightarrow> string" where
  "ljust w s = s @ replicate (w - length s) CHR '' ''"

definition rjust :: "nat \<Rightarrow> string \<Rightarrow> string" where
  "rjust w s = replicate (w - length s) CHR '' '' @ s"

definition center :: "nat \<Rightarrow> string \<Rightarrow> string" where
  "center w s =
     (let marg = w - length s;
          left = marg div 2 + (if odd marg \<and> odd w then 1 else 0)
      in replicate left CHR '' '' @ s @ replicate (marg - left) CHR '' '')"

subsection \<open>Console input and output\<close>

text \<open>
  The console is the list of lines still to be read and the list of texts written so far.
  \<^verbatim>\<open>print(s)\<close> writes \<open>s\<close> and a line feed; \<^verbatim>\<open>input(prompt)\<close> writes the prompt and reads one
  line, and raises \<^verbatim>\<open>EOFError\<close> when no line is left.
\<close>

datatype exn = EOFError | ValueError | KeyError | StatisticsError









subsection \<open>Editing the collection\<close>


subsection \<open>Text files\<close>














subsection \<open>The summary report\<close>

text \<open>
  The report uses \<^verbatim>\<open>mean\<close>, \<^verbatim>\<open>median\<close> and \<^verbatim>\<open>stdev\<close> of Python's \<^verbatim>\<open>statistics\<close> module and
  the arithmetic of its floating-point numbers. Neither is code of this program, so the
  model takes them as a parameter: a type \<open>'n\<close> of numbers with the module's results on
  data they are defined for, and the operations the report applies to them. What the
  module does on data it is not defined for is part of the model: \<^verbatim>\<open>mean\<close> and \<^verbatim>\<open>median\<close>
  raise \<^verbatim>\<open>StatisticsError\<close> on no data and \<^verbatim>\<open>stdev\<close> on fewer than two values, \<^verbatim>\<open>max\<close> and
  \<^verbatim>\<open>min\<close> raise \<^verbatim>\<open>ValueError\<close> on no data.

  The fields: \<open>n_mean\<close> and \<open>n_stdev\<close> are \<^verbatim>\<open>mean(data)\<close> and \<^verbatim>\<open>stdev(data)\<close>, \<open>n_half x\<close> is
  \<^verbatim>\<open>x / 2\<close>, \<open>n_round2 x\<close> is \<^verbatim>\<open>round(x, 2)\<close>, \<open>n_str x\<close> is the text an f-string puts for
  \<open>x\<close>, \<open>n_add\<close> and \<open>n_sub\<close> are \<^verbatim>\<open>+\<close> and \<^verbatim>\<open>-\<close>, \<open>n_mul i x\<close> is \<^verbatim>\<open>i * x\<close> for an integer
  \<open>i\<close>, and \<open>n_gt c x\<close> and \<open>n_lt c x\<close> are \<^verbatim>\<open>c > x\<close> and \<^verbatim>\<open>c < x\<close> for an integer \<open>c\<close>.
\<close>

record 'n numeric =
  n_mean :: "int list \<Rightarrow> 'n"
  n_stdev :: "int list \<Rightarrow> 'n"
  n_half :: "int \<Rightarrow> 'n"
  n_round2 :: "'n \<Rightarrow> 'n"
  n_str :: "'n \<Rightarrow> string"
  n_add :: "'n \<Rightarrow> 'n \<Rightarrow> 'n"
  n_sub :: "'n \<Rightarrow> 'n \<Rightarrow> 'n"
  n_mul :: "int \<Rightarrow> 'n \<Rightarrow> 'n"
  n_gt :: "int \<Rightarrow> 'n \<Rightarrow> bool"
  n_lt :: "int \<Rightarrow> 'n \<Rightarrow> bool"

definition py_mean :: "'n numeric \<Rightarrow> int list \<Rightarrow> exn + 'n" where
  "py_mean lib data = (if data = [] then Inl StatisticsError else Inr (n_mean lib data))"

definition py_stdev :: "'n numeric \<Rightarrow> int list \<Rightarrow> exn + 'n" where
  "py_stdev lib data = (if length data < 2 then Inl StatisticsError else Inr (n_stdev lib data))"

text \<open>
  \<^verbatim>\<open>median\<close> gives the middle value of the sorted data, or half the sum of the two middle
  values; the model gives the text the report prints for it.
\<close>

definition py_median :: "'n numeric \<Rightarrow> int list \<Rightarrow> exn + string" where
  "py_median lib data =
     (let sorted_data = sort data; n = length sorted_data
      in if n = 0 then Inl StatisticsError
         else if n mod 2 = 1 then Inr (str_int (sorted_data ! (n div 2)))
         else Inr (n_str lib (n_half lib (sorted_data ! (n div 2 - 1) + sorted_data ! (n div 2)))))"

definition py_max :: "int list \<Rightarrow> exn + int" where
  "py_max data = (if data = [] then Inl ValueError else Inr (Max (set data)))"

definition py_min :: "int list \<Rightarrow> exn + int" where
  "py_min data = (if data = [] then Inl ValueError else Inr (Min (set data)))"

text \<open>The outlier detection of \<^verbatim>\<open>generate_summary_report\<close>.\<close>

definition detect_outliers ::
  "'n numeric \<Rightarrow> papers \<Rightarrow> exn + ((string \<times> int) list \<times> (string \<times> int) list)"
where
  "detect_outliers lib papers =
     (let values = values_of papers
      in if length values > 1 then
           (case py_stdev lib values of
              Inl e \<Rightarrow> Inl e
            | Inr std_dev \<Rightarrow>
                (case py_mean lib values of
                   Inl e \<Rightarrow> Inl e
                 | Inr mean_val \<Rightarrow>
                     Inr (foldl (\<lambda>(outliers_high, outliers_low) (name, cit).
                                   if n_gt lib cit (n_add lib mean_val (n_mul lib 2 std_dev))
                                   then (outliers_high @ [(name, cit)], outliers_low)
                                   else if n_lt lib cit (n_sub lib mean_val (n_mul lib 2 std_dev))
                                   then (outliers_high, outliers_low @ [(name, cit)])
                                   else (outliers_high, outliers_low))
                            ([], []) papers)))
         else Inr ([], []))"

text \<open>
  The letter sigma of two labels of the report is above 255; it stands here as the two
  bytes of its UTF-8 encoding.
\<close>

definition sigma :: string where
  "sigma = [CHR 0xCF, CHR 0x83]"

definition outlier_text :: "(string \<times> int) list \<Rightarrow> string" where
  "outlier_text outliers =
     (if outliers \<noteq> [] then join '', '' (map (\<lambda>(n, c). n @ ''('' @ str_int c @ '')'') outliers)
      else ''None'')"

text \<open>The statements of \<^verbatim>\<open>generate_summary_report\<close> after its first test.\<close>

definition report_of :: "'n numeric \<Rightarrow> papers \<Rightarrow> exn + string" where
  "report_of lib papers =
     (let values = values_of papers;
          total_papers = length values;
          total_citations = sum_list values
      in case py_mean lib values of
           Inl e \<Rightarrow> Inl e
         | Inr mean_value \<Rightarrow>
         let avg_citations = n_round2 lib mean_value
         in case py_median lib values of
           Inl e \<Rightarrow> Inl e
         | Inr median_citations \<Rightarrow>
         case py_max values of
           Inl e \<Rightarrow> Inl e
         | Inr max_cit \<Rightarrow>
         case py_min values of
           Inl e \<Rightarrow> Inl e
         | Inr min_cit \<Rightarrow>
         let h_idx = h_index papers;
             i10_idx = i10_index papers;
             range_cit = max_cit - min_cit;
             zero_cit = map fst (filter (\<lambda>(name, c). c = 0) papers)
         in case detect_outliers lib papers of
           Inl e \<Rightarrow> Inl e
         | Inr (outliers_high, outliers_low) \<Rightarrow>
         Inr (join ''\<newline>''
           ([center 60 ''RESEARCH PAPER STATISTICS'',
             replicate 60 CHR ''='',
             ''Total Papers       : '' @ str_int (int total_papers),
             ''Total Citations    : '' @ str_int total_citations,
             ''h-index            : '' @ str_int h_idx,
             ''i10-index          : '' @ str_int i10_idx,
             ''Average Citations  : '' @ n_str lib avg_citations,
             ''Median Citations   : '' @ median_citations,
             ''Max Citations      : '' @ str_int max_cit,
             ''Min Citations      : '' @ str_int min_cit,
             ''Range              : '' @ str_int range_cit,
             ''Zero-Citation Papers: '' @ (if zero_cit \<noteq> [] then join '', '' zero_cit else ''None''),
             ''High Outliers (>2'' @ sigma @ ''): '' @ outlier_text outliers_high,
             ''Low Outliers (<2'' @ sigma @ '') : '' @ outlier_text outliers_low,
             ''\<newline>All Papers Descending by Citations:'',
             ljust 5 ''S.No'' @ '' '' @ ljust 35 ''Paper Name'' @ '' '' @ rjust 10 ''Citations'',
             replicate 50 CHR ''-'']
            @ map (\<lambda>(i, (name, cit)).
                     ljust 5 (str_int (int i)) @ '' '' @ ljust 35 name @ '' '' @ rjust 10 (str_int cit))
                (List.enumerate 1 (sorted_by_citations papers)))))"

definition generate_summary_report :: "'n numeric \<Rightarrow> papers \<Rightarrow> exn + string" where
  "generate_summary_report lib papers =
     (if papers = [] then Inr ''No papers available.\<newline>'' else report_of lib papers)"

subsection \<open>Conditions on the names of a collection\<close>



section \<open>Properties\<close>

subsection \<open>The h-index\<close>

lemma h_loop_range:
  "0 \<le> foldl (\<lambda>h (i, c). if c \<ge> int i then int i else h) 0 (List.enumerate 1 cs) \<and>
   foldl (\<lambda>h (i, c). if c \<ge> int i then int i else h) 0 (List.enumerate 1 cs) \<le> int (length cs)"
  by (induction cs rule: rev_induct) (auto simp: enumerate_append_eq)

lemma h_loop_sat:
  "0 < foldl (\<lambda>h (i, c). if c \<ge> int i then int i else h) 0 (List.enumerate 1 cs) \<Longrightarrow>
   foldl (\<lambda>h (i, c). if c \<ge> int i then int i else h) 0 (List.enumerate 1 cs)
     \<le> cs ! (nat (foldl (\<lambda>h (i, c). if c \<ge> int i then int i else h) 0 (List.enumerate 1 cs)) - 1)"
proof (induction cs rule: rev_induct)
  case Nil
  then show ?case by simp
next
  case (snoc x xs)
  let ?r = "foldl (\<lambda>h (i, c). if c \<ge> int i then int i else h) 0 (List.enumerate 1 xs)"
  show ?case
  proof (cases "x \<ge> int (1 + length xs)")
    case True
    have "nat (int (1 + length xs)) - 1 = length xs" by simp
    with True show ?thesis by (simp add: enumerate_append_eq nth_append)
  next
    case False
    then have eq: "foldl (\<lambda>h (i, c). if c \<ge> int i then int i else h) 0
                     (List.enumerate 1 (xs @ [x])) = ?r"
      by (simp add: enumerate_append_eq)
    with snoc.prems have pos: "0 < ?r" by simp
    have "?r \<le> int (length xs)" using h_loop_range [of xs] by simp
    with pos have "nat ?r - 1 < length xs" by linarith
    then have "(xs @ [x]) ! (nat ?r - 1) = xs ! (nat ?r - 1)" by (simp add: nth_append)
    with snoc.IH [OF pos] eq show ?thesis by simp
  qed
qed

lemma h_loop_upper:
  "i < length cs \<Longrightarrow> int i + 1 \<le> cs ! i \<Longrightarrow>
   int i + 1 \<le> foldl (\<lambda>h (i, c). if c \<ge> int i then int i else h) 0 (List.enumerate 1 cs)"
proof (induction cs rule: rev_induct)
  case Nil
  then show ?case by simp
next
  case (snoc x xs)
  let ?r = "foldl (\<lambda>h (i, c). if c \<ge> int i then int i else h) 0 (List.enumerate 1 xs)"
  have bound: "?r \<le> int (length xs)" using h_loop_range [of xs] by simp
  show ?case
  proof (cases "i < length xs")
    case True
    with snoc.prems have "int i + 1 \<le> xs ! i" by (simp add: nth_append)
    from snoc.IH [OF True this] bound show ?thesis
      by (simp add: enumerate_append_eq)
  next
    case False
    with snoc.prems have "i = length xs" by simp
    with snoc.prems show ?thesis by (simp add: enumerate_append_eq)
  qed
qed

lemma sorted_desc_py_sorted_reverse: "sorted (rev (py_sorted_reverse (\<lambda>c. c) (xs :: int list)))"
  using sorted_sort_key [of "\<lambda>c. c" "rev xs"] by (simp add: py_sorted_reverse_def)

lemma count_py_sorted_reverse:
  "length (filter P (py_sorted_reverse key xs)) = length (filter P xs)"
proof -
  have "mset (py_sorted_reverse key xs) = mset xs"
    by (simp add: py_sorted_reverse_def)
  then have "mset (filter P (py_sorted_reverse key xs)) = mset (filter P xs)"
    by simp
  then show ?thesis by (metis size_mset)
qed

lemma desc_count_ge_if:
  fixes cs :: "int list"
  assumes desc: "sorted (rev cs)" and k: "k \<le> length cs" "0 < k" and at: "t \<le> cs ! (k - 1)"
  shows "k \<le> length (filter (\<lambda>c. t \<le> c) cs)"
proof -
  have "\<forall>c \<in> set (take k cs). t \<le> c"
  proof
    fix c assume "c \<in> set (take k cs)"
    then obtain i where i: "i < k" "c = cs ! i"
      using k by (auto simp: in_set_conv_nth)
    with desc k have "cs ! (k - 1) \<le> cs ! i"
      by (simp add: sorted_rev_iff_nth_mono)
    with at i show "t \<le> c" by simp
  qed
  then have "filter (\<lambda>c. t \<le> c) (take k cs) = take k cs" by simp
  moreover have "filter (\<lambda>c. t \<le> c) cs
      = filter (\<lambda>c. t \<le> c) (take k cs) @ filter (\<lambda>c. t \<le> c) (drop k cs)"
    by (metis append_take_drop_id filter_append)
  ultimately show ?thesis using k by simp
qed

lemma desc_count_ge_only_if:
  fixes cs :: "int list"
  assumes desc: "sorted (rev cs)" and k: "0 < k" 
    and cnt: "k \<le> length (filter (\<lambda>c. t \<le> c) cs)"
  shows "k \<le> length cs \<and> t \<le> cs ! (k - 1)"
proof -
  have len: "k \<le> length cs" using cnt length_filter_le [of "\<lambda>c. t \<le> c" cs] by linarith
  have "t \<le> cs ! (k - 1)"
  proof (rule ccontr)
    assume neg: "\<not> t \<le> cs ! (k - 1)"
    have "\<forall>c \<in> set (drop (k - 1) cs). \<not> t \<le> c"
    proof
      fix c assume "c \<in> set (drop (k - 1) cs)"
      then obtain j where j: "j < length cs - (k - 1)" "c = cs ! (k - 1 + j)"
        by (auto simp: in_set_conv_nth)
      with desc have "cs ! (k - 1 + j) \<le> cs ! (k - 1)"
        by (simp add: sorted_rev_iff_nth_mono)
      with neg j show "\<not> t \<le> c" by simp
    qed
    then have "filter (\<lambda>c. t \<le> c) (drop (k - 1) cs) = []" by simp
    moreover have "filter (\<lambda>c. t \<le> c) cs
      = filter (\<lambda>c. t \<le> c) (take (k - 1) cs) @ filter (\<lambda>c. t \<le> c) (drop (k - 1) cs)"
      by (metis append_take_drop_id filter_append)
    ultimately have "length (filter (\<lambda>c. t \<le> c) cs) \<le> k - 1"
      using length_filter_le [of "\<lambda>c. t \<le> c" "take (k - 1) cs"] by simp
    with cnt k show False by linarith
  qed
  with len show ?thesis by simp
qed

lemma papers_with_at_least_values:
  "papers_with_at_least papers t = length (filter (\<lambda>c. t \<le> c) (values_of papers))"
  by (simp add: papers_with_at_least_def values_of_def filter_map o_def case_prod_unfold)

lemma h_index_satisfies:
  "0 \<le> h_index papers \<and> h_index papers \<le> int (papers_with_at_least papers (h_index papers))"
proof -
  let ?cs = "py_sorted_reverse (\<lambda>c. c) (values_of papers)"
  let ?r = "foldl (\<lambda>h (i, c). if c \<ge> int i then int i else h) 0 (List.enumerate 1 ?cs)"
  have r: "h_index papers = ?r" by (simp add: h_index_def)
  have nonneg: "0 \<le> ?r" and le: "?r \<le> int (length ?cs)" using h_loop_range [of ?cs] by simp_all
  have "?r \<le> int (length (filter (\<lambda>c. ?r \<le> c) ?cs))"
  proof (cases "?r = 0")
    case True
    then show ?thesis by simp
  next
    case False
    with nonneg have pos: "0 < ?r" by simp
    have "nat ?r \<le> length (filter (\<lambda>c. ?r \<le> c) ?cs)"
      using desc_count_ge_if [OF sorted_desc_py_sorted_reverse, of "nat ?r" "values_of papers" ?r]
        h_loop_sat [OF pos] pos le by simp
    then show ?thesis by linarith
  qed
  then show ?thesis
    using nonneg by (simp add: r papers_with_at_least_values count_py_sorted_reverse)
qed

lemma h_index_greatest:
  assumes "h \<le> int (papers_with_at_least papers h)"
  shows "h \<le> h_index papers"
proof (cases "h \<le> 0")
  case True
  then show ?thesis using h_index_satisfies [of papers] by simp
next
  case False
  let ?cs = "py_sorted_reverse (\<lambda>c. c) (values_of papers)"
  from False have pos: "0 < nat h" by simp
  from assms have "nat h \<le> length (filter (\<lambda>c. h \<le> c) ?cs)"
    by (simp add: papers_with_at_least_values count_py_sorted_reverse)
  from desc_count_ge_only_if [OF sorted_desc_py_sorted_reverse pos this]
  have "nat h - 1 < length ?cs" and "int (nat h - 1) + 1 \<le> ?cs ! (nat h - 1)"
    using False by auto
  from h_loop_upper [OF this] False show ?thesis
    by (simp add: h_index_def)
qed

text \<open>
  Claim C1. For every paper collection, \<open>h_index\<close> returns the maximum \<open>h\<close> such that at
  least \<open>h\<close> papers have a citation count of at least \<open>h\<close>; the empty collection
  yields 0.
\<close>

theorem h_index_is_maximum:
  "h_index papers = Max {h. 0 \<le> h \<and> h \<le> int (papers_with_at_least papers h)} \<and>
   h_index [] = 0"
proof
  let ?S = "{h. 0 \<le> h \<and> h \<le> int (papers_with_at_least papers h)}"
  have "?S \<subseteq> {0 .. int (length papers)}"
    by (auto simp: papers_with_at_least_def intro: order_trans [OF _ length_filter_le [THEN iffD2 [OF of_nat_le_iff]]])
  then have fin: "finite ?S" by (rule finite_subset) simp
  have "Max ?S = h_index papers"
    using fin h_index_satisfies [of papers] h_index_greatest [of _ papers]
    by (intro Max_eqI) auto
  then show "h_index papers = Max ?S" by simp
next
  show "h_index [] = 0"
    by (simp add: h_index_def py_sorted_reverse_def values_of_def)
qed

subsection \<open>Bound and monotonicity of the h-index\<close>

lemma papers_with_at_least_card:
  assumes "distinct (keys papers)"
  shows "papers_with_at_least papers t = card {k. \<exists>c. dict_get papers k = Some c \<and> t \<le> c}"
proof -
  let ?sel = "filter (\<lambda>(name, c). t \<le> c) papers"
  from assms have dk: "distinct (map fst papers)" by (simp add: keys_def)
  then have d: "distinct papers" by (rule distinct_map [THEN iffD1, THEN conjunct1])
  from dk have inj: "inj_on fst (set papers)" by (simp add: distinct_map)
  have "fst ` set ?sel = {k. \<exists>c. dict_get papers k = Some c \<and> t \<le> c}"
    using dk by (force simp: dict_get_def image_iff)
  moreover have "card (fst ` set ?sel) = card (set ?sel)"
    by (rule card_image) (rule inj_on_subset [OF inj], auto)
  moreover have "card (set ?sel) = length ?sel"
    using d by (intro distinct_card) simp
  ultimately show ?thesis by (simp add: papers_with_at_least_def)
qed

lemma papers_with_at_least_mono:
  assumes dp: "distinct (keys papers)" and dq: "distinct (keys papers')"
    and same: "set (keys papers) = set (keys papers')"
    and up: "\<forall>k c c'. dict_get papers k = Some c \<longrightarrow> dict_get papers' k = Some c' \<longrightarrow> c \<le> c'"
  shows "papers_with_at_least papers t \<le> papers_with_at_least papers' t"
proof -
  have fin: "finite {k. \<exists>c. dict_get papers' k = Some c \<and> t \<le> c}"
    by (rule finite_subset [of _ "dom (map_of papers')"]) (auto simp: dict_get_def finite_dom_map_of)
  have sub: "{k. \<exists>c. dict_get papers k = Some c \<and> t \<le> c}
      \<subseteq> {k. \<exists>c. dict_get papers' k = Some c \<and> t \<le> c}"
  proof clarify
    fix k c assume k: "dict_get papers k = Some c" and c: "t \<le> c"
    then have "k \<in> set (keys papers)"
      by (auto simp: dict_get_def keys_def dest: map_of_SomeD intro: rev_image_eqI)
    with same have "k \<in> fst ` set papers'" by (simp add: keys_def)
    then obtain c' where k': "dict_get papers' k = Some c'"
      by (auto simp: dict_get_def dest: weak_map_of_SomeI)
    with up k have "c \<le> c'" by blast
    with c k' show "\<exists>c. dict_get papers' k = Some c \<and> t \<le> c" by auto
  qed
  show ?thesis
    unfolding papers_with_at_least_card [OF dp] papers_with_at_least_card [OF dq]
    by (rule card_mono [OF fin sub])
qed

lemma h_index_le_length: "h_index papers \<le> int (length papers)"
proof -
  have "h_index papers \<le> int (papers_with_at_least papers (h_index papers))"
    using h_index_satisfies [of papers] by simp
  also have "\<dots> \<le> int (length papers)"
    by (simp add: papers_with_at_least_def)
  finally show ?thesis .
qed

text \<open>
  Claim C4. The h-index is at most the number of papers, and it does not decrease when
  citation counts increase: for two collections with the same names, where no paper has
  fewer citations in the second than in the first, the h-index of the second is at
  least that of the first.
\<close>

theorem h_index_bounded_and_monotone:
  "h_index papers \<le> int (length papers) \<and>
   (distinct (keys papers) \<and> distinct (keys papers') \<and> set (keys papers) = set (keys papers') \<and>
    (\<forall>k c c'. dict_get papers k = Some c \<longrightarrow> dict_get papers' k = Some c' \<longrightarrow> c \<le> c')
    \<longrightarrow> h_index papers \<le> h_index papers')"
proof (intro conjI impI)
  show "h_index papers \<le> int (length papers)" by (rule h_index_le_length)
next
  assume a: "distinct (keys papers) \<and> distinct (keys papers') \<and>
    set (keys papers) = set (keys papers') \<and>
    (\<forall>k c c'. dict_get papers k = Some c \<longrightarrow> dict_get papers' k = Some c' \<longrightarrow> c \<le> c')"
  have "h_index papers \<le> int (papers_with_at_least papers (h_index papers))"
    using h_index_satisfies [of papers] by simp
  also have "\<dots> \<le> int (papers_with_at_least papers' (h_index papers))"
    using papers_with_at_least_mono [of papers papers' "h_index papers"] a by simp
  finally show "h_index papers \<le> h_index papers'" by (rule h_index_greatest)
qed

theorem h_index_bounded_and_monotone_witness:
  "h_index [(''A'', 1), (''B'', 1), (''C'', 5)] = 1 \<and>
   h_index [(''C'', 5), (''A'', 2), (''B'', 3)] = 2 \<and>
   h_index [(''A'', 1), (''B'', 1), (''C'', 5)] \<le> 3 \<and>
   h_index [(''A'', 1), (''B'', 1), (''C'', 5)] \<le> h_index [(''C'', 5), (''A'', 2), (''B'', 3)]"
proof -
  have "distinct (keys [(''A'', 1::int), (''B'', 1), (''C'', 5)]) \<and>
    distinct (keys [(''C'', 5::int), (''A'', 2), (''B'', 3)]) \<and>
    set (keys [(''A'', 1::int), (''B'', 1), (''C'', 5)]) = set (keys [(''C'', 5::int), (''A'', 2), (''B'', 3)]) \<and>
    (\<forall>k c c'. dict_get [(''A'', 1::int), (''B'', 1), (''C'', 5)] k = Some c \<longrightarrow>
         dict_get [(''C'', 5::int), (''A'', 2), (''B'', 3)] k = Some c' \<longrightarrow> c \<le> c')"
    by (auto simp: keys_def dict_get_def split: if_splits)
  with h_index_bounded_and_monotone
    [of "[(''A'', 1), (''B'', 1), (''C'', 5)]" "[(''C'', 5), (''A'', 2), (''B'', 3)]"]
  have "h_index [(''A'', 1), (''B'', 1), (''C'', 5)] \<le> 3 \<and>
   h_index [(''A'', 1), (''B'', 1), (''C'', 5)] \<le> h_index [(''C'', 5), (''A'', 2), (''B'', 3)]"
    by simp
  moreover have "h_index [(''A'', 1), (''B'', 1), (''C'', 5)] = 1"
    by (simp add: h_index_def values_of_def py_sorted_reverse_def enumerate_eq_zip upt_rec)
  moreover have "h_index [(''C'', 5), (''A'', 2), (''B'', 3)] = 2"
    by (simp add: h_index_def values_of_def py_sorted_reverse_def enumerate_eq_zip upt_rec)
  ultimately show ?thesis by simp
qed

subsection \<open>Dictionaries and counting\<close>

lemma sum_list_ones: "sum_list (map (\<lambda>c. 1) xs) = int (length xs)"
  by (induction xs) simp_all

lemma count_values_eq:
  "sum_list (map (\<lambda>c. 1) (filter (\<lambda>c. c \<ge> t) (values_of papers))) = int (papers_with_at_least papers t)"
  by (simp add: sum_list_ones papers_with_at_least_values)

lemma keys_dict_set:
  "keys (dict_set k v d) = (if k \<in> set (keys d) then keys d else keys d @ [k])"
  by (induction d) (auto simp: keys_def)

lemma map_of_dict_set: "map_of (dict_set k v d) = (map_of d)(k \<mapsto> v)"
  by (induction d) (auto simp: fun_eq_iff)

lemma dict_set_fresh: "k \<notin> set (keys d) \<Longrightarrow> dict_set k v d = d @ [(k, v)]"
  by (induction d) (auto simp: keys_def)

lemma keys_comprehension:
  "keys (foldl (\<lambda>d t. dict_set t (f t) d) [] ts) = rev (remdups (rev ts))"
proof (induction ts rule: rev_induct)
  case Nil
  then show ?case by (simp add: keys_def)
next
  case (snoc t ts)
  have "set (rev (remdups (rev ts))) = set ts" by simp
  with snoc show ?case by (simp add: keys_dict_set)
qed

lemma lookup_comprehension:
  "map_of (foldl (\<lambda>d t. dict_set t (f t) d) [] ts) t = (if t \<in> set ts then Some (f t) else None)"
  by (induction ts rule: rev_induct) (simp_all add: map_of_dict_set)

subsection \<open>Counting above thresholds\<close>

text \<open>
  Claim C2. \<open>count_above_thresholds\<close> returns a mapping whose keys are the thresholds in
  the order given (a threshold that occurs again keeps its first place) and which maps
  each threshold \<open>t\<close> of the sequence to the number of papers with at least \<open>t\<close>
  citations; the thresholds 5 and 15 over X: 20, Y: 10, Z: 2 give 5: 2 and 15: 1.
\<close>

theorem count_above_thresholds_counts:
  "keys (count_above_thresholds papers thresholds) = rev (remdups (rev thresholds)) \<and>
   (\<forall>t \<in> set thresholds.
      dict_get (count_above_thresholds papers thresholds) t
        = Some (int (papers_with_at_least papers t))) \<and>
   count_above_thresholds [(''X'', 20), (''Y'', 10), (''Z'', 2)] [5, 15] = [(5, 2), (15, 1)]"
proof (intro conjI ballI)
  show "keys (count_above_thresholds papers thresholds) = rev (remdups (rev thresholds))"
    unfolding count_above_thresholds_def by (rule keys_comprehension)
next
  fix t assume "t \<in> set thresholds"
  then show "dict_get (count_above_thresholds papers thresholds) t
        = Some (int (papers_with_at_least papers t))"
    unfolding count_above_thresholds_def dict_get_def
    by (simp add: lookup_comprehension count_values_eq)
next
  show "count_above_thresholds [(''X'', 20), (''Y'', 10), (''Z'', 2)] [5, 15] = [(5, 2), (15, 1)]"
    by (simp add: count_above_thresholds_def values_of_def)
qed

theorem count_above_thresholds_counts_witness:
  "keys (count_above_thresholds [(''X'', 20), (''Y'', 10), (''Z'', 2)] [5, 15, 5]) = [5, 15] \<and>
   dict_get (count_above_thresholds [(''X'', 20), (''Y'', 10), (''Z'', 2)] [5, 15, 5]) 15 = Some 1 \<and>
   dict_get (count_above_thresholds [(''X'', 20), (''Y'', 10), (''Z'', 2)] [5, 15, 5]) 5 = Some 2"
  using count_above_thresholds_counts [of "[(''X'', 20), (''Y'', 10), (''Z'', 2)]" "[5, 15, 5]"]
  by (simp add: papers_with_at_least_def)

text \<open>
  Claim C6. \<open>i10_index\<close> is the number of papers with at least 10 citations, and it is
  the value \<open>count_above_thresholds\<close> gives the threshold 10 for the sequence of 10 alone.
\<close>

theorem i10_index_counts:
  "i10_index papers = int (papers_with_at_least papers 10) \<and>
   dict_get (count_above_thresholds papers [10]) 10 = Some (i10_index papers)"
  by (simp add: i10_index_def count_above_thresholds_def dict_get_def sum_list_ones
      papers_with_at_least_values)

subsection \<open>Sorted views\<close>

lemma dict_of_append:
  "distinct (keys (d @ kvs)) \<Longrightarrow> foldl (\<lambda>d (k, v). dict_set k v d) d kvs = d @ kvs"
proof (induction kvs arbitrary: d)
  case Nil
  then show ?case by simp
next
  case (Cons p kvs)
  obtain k v where p: "p = (k, v)" by (cases p)
  from Cons.prems have fresh: "k \<notin> set (keys d)" and rest: "distinct (keys ((d @ [(k, v)]) @ kvs))"
    by (auto simp: keys_def p)
  from Cons.IH [OF rest] fresh show ?case by (simp add: p dict_set_fresh)
qed

lemma dict_of_distinct: "distinct (keys kvs) \<Longrightarrow> dict_of kvs = kvs"
  using dict_of_append [of "[]" kvs] by (simp add: dict_of_def)

lemma distinct_keys_mset:
  assumes "mset ys = mset xs" and "distinct (keys xs)"
  shows "distinct (keys ys)"
proof -
  from assms(1) have "mset (map fst ys) = mset (map fst xs)" by simp
  then show ?thesis using assms(2) unfolding keys_def by (metis mset_eq_imp_distinct_iff)
qed

lemma stable_py_sorted: "stable_sort_of key (\<le>) xs (py_sorted key xs)"
  unfolding stable_sort_of_def py_sorted_def
  using sorted_sort_key [of key xs] by (simp add: sorted_map sort_key_stable)

lemma stable_py_sorted_reverse: "stable_sort_of key (\<lambda>a b. b \<le> a) xs (py_sorted_reverse key xs)"
proof -
  have "sorted_wrt (\<lambda>a b. key b \<le> key a) (rev (sort_key key (rev xs)))"
    using sorted_sort_key [of key "rev xs"] by (simp add: sorted_map sorted_wrt_rev)
  moreover have "filter (\<lambda>x. key x = k) (rev (sort_key key (rev xs))) = filter (\<lambda>x. key x = k) xs" for k
    by (simp add: rev_filter [symmetric] sort_key_stable)
  ultimately show ?thesis
    by (simp add: stable_sort_of_def py_sorted_reverse_def)
qed

lemma py_sorted_idem: "py_sorted key (py_sorted key xs) = py_sorted key xs"
  by (simp add: py_sorted_def sort_key_id_if_sorted)

lemma py_sorted_reverse_idem:
  "py_sorted_reverse key (py_sorted_reverse key xs) = py_sorted_reverse key xs"
  by (simp add: py_sorted_reverse_def sort_key_id_if_sorted)

lemma sorted_by_citations_eq:
  "distinct (keys papers) \<Longrightarrow> sorted_by_citations papers = py_sorted_reverse (\<lambda>x. snd x) papers"
  unfolding sorted_by_citations_def
  by (rule dict_of_distinct, rule distinct_keys_mset [of _ papers]) (simp_all add: py_sorted_reverse_def)

lemma sorted_by_name_eq:
  "distinct (keys papers) \<Longrightarrow> sorted_by_name papers = py_sorted (\<lambda>x. fst x) papers"
  unfolding sorted_by_name_def
  by (rule dict_of_distinct, rule distinct_keys_mset [of _ papers]) (simp_all add: py_sorted_def)

lemma distinct_keys_sorted_by_citations:
  "distinct (keys papers) \<Longrightarrow> distinct (keys (sorted_by_citations papers))"
  by (simp add: sorted_by_citations_eq, rule distinct_keys_mset [of _ papers])
     (simp_all add: py_sorted_reverse_def)

lemma distinct_keys_sorted_by_name:
  "distinct (keys papers) \<Longrightarrow> distinct (keys (sorted_by_name papers))"
  by (simp add: sorted_by_name_eq, rule distinct_keys_mset [of _ papers])
     (simp_all add: py_sorted_def)

text \<open>
  Claim C7. For each of the two sort modes, \<open>get_sorted_papers\<close> returns a reference to a
  new mapping, which is the stable sort of the collection (by descending citation count,
  or by ascending name); every mapping of the store, the original among them, is left
  as it was; and sorting the sorted view again in the same mode gives a mapping in the
  identical order.
\<close>

theorem get_sorted_papers_stable_new_idempotent:
  assumes "papers < length s" and "distinct (keys (s ! papers))"
    and "mode = ''citations'' \<or> mode = ''name''"
  shows "\<exists>view.
     get_sorted_papers s papers mode = (s @ [view], length s) \<and>
     (s @ [view]) ! papers = s ! papers \<and>
     (mode = ''citations'' \<longrightarrow> stable_sort_of snd (\<lambda>a b. b \<le> a) (s ! papers) view) \<and>
     (mode = ''name'' \<longrightarrow> stable_sort_of fst (\<le>) (s ! papers) view) \<and>
     get_sorted_papers (s @ [view]) (length s) mode = (s @ [view, view], length s + 1)"
proof -
  from assms(3) show ?thesis
  proof
    assume m: "mode = ''citations''"
    let ?view = "sorted_by_citations (s ! papers)"
    have "sorted_by_citations ?view = ?view"
      using assms(2) distinct_keys_sorted_by_citations [OF assms(2)]
      by (simp add: sorted_by_citations_eq py_sorted_reverse_idem)
    moreover have "stable_sort_of snd (\<lambda>a b. b \<le> a) (s ! papers) ?view"
      using assms(2) by (simp add: sorted_by_citations_eq stable_py_sorted_reverse)
    ultimately show ?thesis
      using assms(1) m by (intro exI [of _ ?view]) (simp add: get_sorted_papers_def alloc_def nth_append)
  next
    assume m: "mode = ''name''"
    let ?view = "sorted_by_name (s ! papers)"
    have "sorted_by_name ?view = ?view"
      using assms(2) distinct_keys_sorted_by_name [OF assms(2)]
      by (simp add: sorted_by_name_eq py_sorted_idem)
    moreover have "stable_sort_of fst (\<le>) (s ! papers) ?view"
      using assms(2) by (simp add: sorted_by_name_eq stable_py_sorted)
    ultimately show ?thesis
      using assms(1) m by (intro exI [of _ ?view]) (simp add: get_sorted_papers_def alloc_def nth_append)
  qed
qed

theorem get_sorted_papers_stable_new_idempotent_witness:
  "(0::nat) < length [[(''X'', 2::int), (''Y'', 10), (''Z'', 2), (''A'', 10)]] \<and>
   distinct (keys ([[(''X'', 2::int), (''Y'', 10), (''Z'', 2), (''A'', 10)]] ! 0)) \<and>
   (\<exists>view.
     get_sorted_papers [[(''X'', 2), (''Y'', 10), (''Z'', 2), (''A'', 10)]] 0 ''citations''
       = ([[(''X'', 2), (''Y'', 10), (''Z'', 2), (''A'', 10)], view], 1) \<and>
     view = [(''Y'', 10), (''A'', 10), (''X'', 2), (''Z'', 2)] \<and>
     stable_sort_of snd (\<lambda>a b. b \<le> a) [(''X'', 2), (''Y'', 10), (''Z'', 2), (''A'', 10)] view \<and>
     get_sorted_papers [[(''X'', 2), (''Y'', 10), (''Z'', 2), (''A'', 10)], view] 1 ''citations''
       = ([[(''X'', 2), (''Y'', 10), (''Z'', 2), (''A'', 10)], view, view], 2))"
proof -
  have ex: "sorted_by_citations [(''X'', 2), (''Y'', 10), (''Z'', 2), (''A'', 10)]
      = [(''Y'', 10), (''A'', 10), (''X'', 2), (''Z'', 2)]"
    by (simp add: sorted_by_citations_def py_sorted_reverse_def dict_of_def)
  have len: "(0::nat) < length [[(''X'', 2::int), (''Y'', 10), (''Z'', 2), (''A'', 10)]]" by simp
  have dist: "distinct (keys ([[(''X'', 2::int), (''Y'', 10), (''Z'', 2), (''A'', 10)]] ! 0))"
    by (simp add: keys_def)
  have mode: "''citations'' = ''citations'' \<or> ''citations'' = ''name''" by simp
  from get_sorted_papers_stable_new_idempotent [OF len dist mode]
  show ?thesis using len dist by (auto simp: get_sorted_papers_def alloc_def ex)
qed

text \<open>
  Claim C9. For a mode other than "citations" and "name", \<open>get_sorted_papers\<close> returns
  the reference it was given and leaves the store as it is: the result is the input
  mapping itself, unsorted and unmodified.
\<close>

theorem get_sorted_papers_other_mode:
  "mode \<noteq> ''citations'' \<Longrightarrow> mode \<noteq> ''name'' \<Longrightarrow> get_sorted_papers s papers mode = (s, papers)"
  by (simp add: get_sorted_papers_def)

theorem get_sorted_papers_other_mode_witness:
  "''date'' \<noteq> ''citations'' \<and> ''date'' \<noteq> ''name'' \<and>
   get_sorted_papers [[(''B'', 1), (''A'', 7)]] 0 ''date'' = ([[(''B'', 1), (''A'', 7)]], 0)"
  using get_sorted_papers_other_mode [of "''date''" "[[(''B'', 1), (''A'', 7)]]" 0]
  by simp

subsection \<open>Saving and loading\<close>























subsection \<open>Outlier detection\<close>

text \<open>
  The outlier thresholds are numbers of the \<^verbatim>\<open>statistics\<close> module, computed and compared in
  floating-point arithmetic, which this development takes as a parameter. What holds
  for every such parameter is the shape of the loop: with fewer than two papers both
  sequences are empty, and otherwise the high outliers are the papers that pass the
  first comparison, the low outliers are the papers that fail the first and pass the
  second, both in the order of the collection.
\<close>

lemma outlier_loop:
  "foldl (\<lambda>(outliers_high, outliers_low) (name, cit).
            if H cit then (outliers_high @ [(name, cit)], outliers_low)
            else if L cit then (outliers_high, outliers_low @ [(name, cit)])
            else (outliers_high, outliers_low)) (hi, lo) papers
   = (hi @ filter (\<lambda>(name, cit). H cit) papers,
      lo @ filter (\<lambda>(name, cit). \<not> H cit \<and> L cit) papers)"
proof (induction papers arbitrary: hi lo)
  case Nil
  then show ?case by simp
next
  case (Cons p papers)
  obtain name cit where p: "p = (name, cit)" by (cases p)
  show ?case by (cases "H cit"; cases "L cit") (simp_all add: p Cons.IH)
qed

lemma detect_outliers_few:
  "length papers < 2 \<Longrightarrow> detect_outliers lib papers = Inr ([], [])"
  by (simp add: detect_outliers_def values_of_def)

lemma detect_outliers_many:
  assumes "2 \<le> length papers"
  shows "detect_outliers lib papers =
     Inr (filter (\<lambda>(name, cit).
            n_gt lib cit (n_add lib (n_mean lib (values_of papers))
                             (n_mul lib 2 (n_stdev lib (values_of papers))))) papers,
          filter (\<lambda>(name, cit).
            \<not> n_gt lib cit (n_add lib (n_mean lib (values_of papers))
                               (n_mul lib 2 (n_stdev lib (values_of papers)))) \<and>
            n_lt lib cit (n_sub lib (n_mean lib (values_of papers))
                             (n_mul lib 2 (n_stdev lib (values_of papers))))) papers)"
proof -
  from assms have many: "1 < length (values_of papers)" "\<not> length (values_of papers) < 2"
    "values_of papers \<noteq> []"
    by (auto simp: values_of_def)
  show ?thesis
    unfolding detect_outliers_def Let_def py_stdev_def py_mean_def
    using many by (simp add: outlier_loop)
qed

subsection \<open>The summary report\<close>

text \<open>
  Claim C10. On the empty collection \<open>generate_summary_report\<close> returns the text
  "No papers available." with a line feed and raises nothing, although mean, median, max,
  min and stdev all raise on no data, as the statements after the first test would.
\<close>

theorem generate_summary_report_empty:
  "generate_summary_report lib [] = Inr ''No papers available.\<newline>'' \<and>
   py_mean lib [] = Inl StatisticsError \<and> py_median lib [] = Inl StatisticsError \<and>
   py_max [] = Inl ValueError \<and> py_min [] = Inl ValueError \<and>
   py_stdev lib [] = Inl StatisticsError \<and> report_of lib [] = Inl StatisticsError"
  by (simp add: generate_summary_report_def py_mean_def py_median_def py_max_def py_min_def
      py_stdev_def report_of_def values_of_def)

subsection \<open>Editing the collection\<close>





end
